theory Spec2Isabelle
  imports Complex_Main
begin

section \<open>Thorium DAQ: the sweep controller, the waveform parser and the writer\<close>

text \<open>
  A shallow embedding of \<^verbatim>\<open>thorium.py\<close> (class \<^verbatim>\<open>DaqRunner\<close>). Python strings are
  \<open>string\<close>, Python exceptions are values of \<open>py_error\<close>, the mutable attributes of the
  runner and the outside world it acts on are a record that every method takes and
  returns, and the two busy-wait loops, which may run forever, return \<open>None\<close> when they do.
\<close>

subsection \<open>Python library functions used by the source\<close>

datatype py_error = ValueError | IndexError | AttributeError

text \<open>\<^verbatim>\<open>s.split(sep)\<close> with a one-character separator: every occurrence splits, empty
  fields are kept, and the result is never empty.\<close>

fun py_split :: "char \<Rightarrow> string \<Rightarrow> string list" where
  "py_split sep [] = [[]]"
| "py_split sep (c # cs) =
     (if c = sep then [] # py_split sep cs
      else (case py_split sep cs of
              [] \<Rightarrow> [[c]]
            | w # ws \<Rightarrow> (c # w) # ws))"

text \<open>\<^verbatim>\<open>sub in s\<close> on strings: \<open>sub\<close> occurs in \<open>s\<close> as a contiguous block.\<close>

fun startswith :: "string \<Rightarrow> string \<Rightarrow> bool" where
  "startswith s [] = True"
| "startswith [] (p # ps) = False"
| "startswith (c # cs) (p # ps) = (c = p \<and> startswith cs ps)"

fun py_in :: "string \<Rightarrow> string \<Rightarrow> bool" where
  "py_in sub [] = (sub = [])"
| "py_in sub (c # cs) = (startswith (c # cs) sub \<or> py_in sub cs)"

text \<open>\<^verbatim>\<open>s.strip()\<close>: the ASCII characters Python counts as whitespace (tab, line feed,
  vertical tab, form feed, carriage return, the four separators 0x1C..0x1F, space) are
  removed at both ends.\<close>

definition is_space :: "char \<Rightarrow> bool" where
  "is_space c = (c \<in> set [CHR 0x09, CHR 0x0A, CHR 0x0B, CHR 0x0C, CHR 0x0D,
                            CHR 0x1C, CHR 0x1D, CHR 0x1E, CHR 0x1F, CHR 0x20])"

definition py_strip :: "string \<Rightarrow> string" where
  "py_strip s = rev (dropWhile is_space (rev (dropWhile is_space s)))"

text \<open>\<^verbatim>\<open>sub('[^0-9]', '', entry)\<close>: only the ASCII digits of the entry are kept.\<close>

definition is_digit :: "char \<Rightarrow> bool" where
  "is_digit c = (c \<in> set ''0123456789'')"

definition sub_non_digits :: "string \<Rightarrow> string" where
  "sub_non_digits entry = filter is_digit entry"

text \<open>\<^verbatim>\<open>int(s)\<close> on a string of ASCII digits; the empty string raises ValueError.\<close>

definition digit_val :: "char \<Rightarrow> nat" where
  "digit_val c = of_char c - 48"

definition py_int :: "string \<Rightarrow> py_error + int" where
  "py_int s =
     (if s = [] then Inl ValueError
      else Inr (int (foldl (\<lambda>acc c. 10 * acc + digit_val c) 0 s)))"

text \<open>\<^verbatim>\<open>str(n)\<close> for a non-negative integer.\<close>

definition digit_char :: "nat \<Rightarrow> char" where
  "digit_char d = ''0123456789'' ! d"

fun str_nat :: "nat \<Rightarrow> string" where
  "str_nat n =
     (if n < 10 then [digit_char n]
      else str_nat (n div 10) @ [digit_char (n mod 10)])"

declare str_nat.simps [simp del]

text \<open>\<^verbatim>\<open>xs[i]\<close> and \<^verbatim>\<open>xs[i] = v\<close>: a negative index counts from the end, and an index
  outside \<open>-len .. len-1\<close> raises IndexError.\<close>

definition py_index :: "'a list \<Rightarrow> int \<Rightarrow> py_error + nat" where
  "py_index xs i =
     (if 0 \<le> i \<and> i < int (length xs) then Inr (nat i)
      else if i < 0 \<and> - int (length xs) \<le> i then Inr (nat (int (length xs) + i))
      else Inl IndexError)"

definition py_getitem :: "'a list \<Rightarrow> int \<Rightarrow> py_error + 'a" where
  "py_getitem xs i = (case py_index xs i of Inl e \<Rightarrow> Inl e | Inr j \<Rightarrow> Inr (xs ! j))"

definition py_setitem :: "'a list \<Rightarrow> int \<Rightarrow> 'a \<Rightarrow> py_error + 'a list" where
  "py_setitem xs i v = (case py_index xs i of Inl e \<Rightarrow> Inl e | Inr j \<Rightarrow> Inr (xs[j := v]))"

text \<open>
  Python's numbers are not modelled bit by bit: \<open>'f\<close> is the type of the numeric values
  the program handles, and the three operations the source applies to them are the
  fields of a record that every function takes.
  \<^item> \<open>pyfloat s\<close> is \<^verbatim>\<open>float(s)\<close>, \<open>None\<close> when it raises ValueError;
  \<^item> \<open>fmul x i\<close> is \<^verbatim>\<open>x * i\<close> for a sample index \<open>i\<close>, which raises nothing for an
    index a waveform can reach;
  \<^item> \<open>fstr x\<close> is \<^verbatim>\<open>str(x)\<close>;
  \<^item> \<open>fzero\<close> is the \<^verbatim>\<open>0\<close> that \<^verbatim>\<open>__init__\<close> stores in \<^verbatim>\<open>self.dt\<close>.
\<close>

record 'f float_ops =
  pyfloat :: "string \<Rightarrow> 'f option"
  fmul :: "'f \<Rightarrow> nat \<Rightarrow> 'f"
  fstr :: "'f \<Rightarrow> string"
  fzero :: "'f"

subsection \<open>The data model\<close>

type_synonym 'f sample = "'f \<times> 'f"
type_synonym 'f wfm = "'f sample list"
type_synonym 'f event = "'f wfm option list"

subsection \<open>\<^verbatim>\<open>convert_to_vector\<close>\<close>

text \<open>The local variables of \<^verbatim>\<open>convert_to_vector\<close>.\<close>

record 'f cv_state =
  list_channel_wfms :: "'f event"
  cur_channel :: int
  time_idx :: nat
  waveform :: "'f wfm"

abbreviation cv_init :: "'f cv_state" where
  "cv_init \<equiv> \<lparr>list_channel_wfms = replicate 4 None, cur_channel = - 1,
              time_idx = 0, waveform = []\<rparr>"

text \<open>The body of the inner loop, for one entry of a line. A marker (an entry with a
  colon) first stores the waveform gathered so far, when a channel is open, and then
  reads the new channel number; both steps can raise. Any other entry is a sample when
  \<^verbatim>\<open>float(entry.strip())\<close> succeeds and is skipped by the bare \<^verbatim>\<open>except\<close> otherwise.\<close>

definition cv_close :: "'f cv_state \<Rightarrow> py_error + 'f cv_state" where
  "cv_close st =
     (if cur_channel st \<ge> 0 then
        (case py_setitem (list_channel_wfms st) (cur_channel st) (Some (waveform st)) of
           Inl e \<Rightarrow> Inl e
         | Inr l \<Rightarrow> Inr (st\<lparr>list_channel_wfms := l, waveform := [], time_idx := 0\<rparr>))
      else Inr st)"

definition cv_entry ::
  "'f float_ops \<Rightarrow> 'f \<Rightarrow> string \<Rightarrow> 'f cv_state \<Rightarrow> py_error + 'f cv_state" where
  "cv_entry ops dt entry st =
     (if CHR '':'' \<in> set entry then
        (case cv_close st of
           Inl e \<Rightarrow> Inl e
         | Inr st' \<Rightarrow>
             (case py_int (sub_non_digits entry) of
                Inl e \<Rightarrow> Inl e
              | Inr n \<Rightarrow> Inr (st'\<lparr>cur_channel := n - 1\<rparr>)))
      else
        (case pyfloat ops (py_strip entry) of
           Some volt \<Rightarrow>
             Inr (st\<lparr>waveform := waveform st @ [(fmul ops dt (time_idx st), volt)],
                     time_idx := time_idx st + 1\<rparr>)
         | None \<Rightarrow> Inr st))"

text \<open>The inner loop over the entries of one line, and the outer loop over the lines;
  an exception leaves both.\<close>

fun cv_line ::
  "'f float_ops \<Rightarrow> 'f \<Rightarrow> string list \<Rightarrow> 'f cv_state \<Rightarrow> py_error + 'f cv_state" where
  "cv_line ops dt [] st = Inr st"
| "cv_line ops dt (entry # entries) st =
     (case cv_entry ops dt entry st of
        Inl e \<Rightarrow> Inl e
      | Inr st' \<Rightarrow> cv_line ops dt entries st')"

fun cv_lines ::
  "'f float_ops \<Rightarrow> 'f \<Rightarrow> string list \<Rightarrow> 'f cv_state \<Rightarrow> py_error + 'f cv_state" where
  "cv_lines ops dt [] st = Inr st"
| "cv_lines ops dt (line # lines) st =
     (case cv_line ops dt (py_split CHR '' '' line) st of
        Inl e \<Rightarrow> Inl e
      | Inr st' \<Rightarrow> cv_lines ops dt lines st')"

text \<open>The whole function: \<open>None\<close> is Python's \<^verbatim>\<open>None\<close>. After the loops the waveform
  in progress is stored at \<^verbatim>\<open>cur_channel\<close> without a test of its sign.\<close>

definition convert_to_vector ::
  "'f float_ops \<Rightarrow> 'f \<Rightarrow> string option \<Rightarrow> py_error + 'f event" where
  "convert_to_vector ops dt values =
     (case values of
        None \<Rightarrow> Inr (replicate 4 None)
      | Some raw \<Rightarrow>
          (case cv_lines ops dt (py_split CHR 0x0A raw) cv_init of
             Inl e \<Rightarrow> Inl e
           | Inr st \<Rightarrow>
               py_setitem (list_channel_wfms st) (cur_channel st) (Some (waveform st))))"

text \<open>The entries in the order the two loops visit them.\<close>

definition entries_of :: "string \<Rightarrow> string list" where
  "entries_of raw = concat (map (py_split CHR '' '') (py_split CHR 0x0A raw))"

text \<open>The samples a run of entries without a marker contributes, counted from index 0.\<close>

definition samples_of :: "'f float_ops \<Rightarrow> 'f \<Rightarrow> 'f list \<Rightarrow> 'f wfm" where
  "samples_of ops dt vs = map (\<lambda>i. (fmul ops dt i, vs ! i)) [0..<length vs]"

text \<open>The same, counted from index \<open>k\<close>.\<close>

definition samples_from :: "'f float_ops \<Rightarrow> 'f \<Rightarrow> nat \<Rightarrow> 'f list \<Rightarrow> 'f wfm" where
  "samples_from ops d k vs = map (\<lambda>i. (fmul ops d (k + i), vs ! i)) [0..<length vs]"

text \<open>The values of the entries that \<^verbatim>\<open>float\<close> accepts, in order.\<close>

definition numeric_values :: "'f float_ops \<Rightarrow> string list \<Rightarrow> 'f list" where
  "numeric_values ops entries = List.map_filter (\<lambda>t. pyfloat ops (py_strip t)) entries"

subsection \<open>\<^verbatim>\<open>dump_data\<close>: the text written for an event log\<close>

text \<open>\<^verbatim>\<open>if channel:\<close> is false for \<^verbatim>\<open>None\<close> and for the empty list.\<close>

definition truthy :: "'f wfm option \<Rightarrow> bool" where
  "truthy channel = (case channel of None \<Rightarrow> False | Some w \<Rightarrow> w \<noteq> [])"

definition dump_entry :: "'f float_ops \<Rightarrow> 'f sample \<Rightarrow> string" where
  "dump_entry ops entry = fstr ops (fst entry) @ '','' @ fstr ops (snd entry) @ [CHR 0x0A]"

definition dump_channel :: "'f float_ops \<Rightarrow> nat \<Rightarrow> nat \<Rightarrow> 'f wfm option \<Rightarrow> string" where
  "dump_channel ops event_num channel_num channel =
     (if truthy channel then
        str_nat event_num @ '';CH'' @ str_nat (channel_num + 1) @ [CHR 0x0A]
        @ concat (map (dump_entry ops) (the channel))
        @ [CHR 0x0A, CHR 0x0A]
      else [])"

definition dump_event :: "'f float_ops \<Rightarrow> nat \<Rightarrow> 'f event \<Rightarrow> string" where
  "dump_event ops event_num event =
     concat (map (\<lambda>(channel_num, channel). dump_channel ops event_num channel_num channel)
               (enumerate 0 event))"

definition dump_from :: "'f float_ops \<Rightarrow> nat \<Rightarrow> 'f event list \<Rightarrow> string" where
  "dump_from ops k events =
     concat (map (\<lambda>(event_num, event). dump_event ops event_num event) (enumerate k events))"

definition dump_text :: "'f float_ops \<Rightarrow> 'f event list \<Rightarrow> string" where
  "dump_text ops events = dump_from ops 0 events"

subsection \<open>The runner, its configuration and the world around it\<close>

text \<open>The arguments of \<^verbatim>\<open>DaqRunner.__init__\<close>, which the runner never changes. The
  voltages and the supply channel are the strings the configuration file holds.\<close>

record config =
  scope_ip :: string
  num_events :: nat
  channels :: "bool list"
  output_filename :: string
  caen_ip :: string
  volt_list :: "string list"
  caen_channel :: string

text \<open>What the runner cannot decide: the reply to its \<open>i\<close>-th status check, the reply
  to its \<open>i\<close>-th scope query (\<open>None\<close> is Python's \<^verbatim>\<open>None\<close>), and whether the stop queue
  holds an item at its \<open>i\<close>-th look. The queue is filled by the console thread and never
  emptied, so \<open>stop_posted\<close> is monotone in every run.\<close>

record env =
  caen_status :: "nat \<Rightarrow> string"
  scope_reply :: "nat \<Rightarrow> string \<Rightarrow> string option"
  stop_posted :: "nat \<Rightarrow> bool"

text \<open>What the runner does to the devices and the file system, in order. Console
  output is left out, and the device clients and the file system are taken to raise
  nothing: the only exceptions are those of the runner's own code.\<close>

datatype action =
    OpenCaen string
  | OpenScope string
  | StatusCheck string
  | EnableOutput string bool
  | SetOutput string string
  | Sleep nat
  | Query string
  | WriteFile string string
  | CloseScope
  | CloseCaen

text \<open>The state: the event log (the class attribute \<^verbatim>\<open>list_events\<close>, shared by every
  runner of the process), \<^verbatim>\<open>self.dt\<close>, the files, the actions so far and how many
  replies of each kind the world has given.\<close>

record 'f daq =
  list_events :: "'f event list"
  dt :: 'f
  files :: "string \<rightharpoonup> string"
  trace :: "action list"
  n_status :: nat
  n_query :: nat
  n_stop :: nat

definition do_action :: "action list \<Rightarrow> 'f daq \<Rightarrow> 'f daq" where
  "do_action acts s = s\<lparr>trace := trace s @ acts\<rparr>"

subsection \<open>\<^verbatim>\<open>dump_data\<close>, \<^verbatim>\<open>get_timebase\<close>, \<^verbatim>\<open>get_events\<close>\<close>

definition dump_path :: "config \<Rightarrow> string \<Rightarrow> string" where
  "dump_path cfg volt = output_filename cfg @ ''_'' @ volt @ ''V''"

text \<open>The file is opened with mode \<^verbatim>\<open>'w'\<close>: whatever the path held is replaced.\<close>

definition dump_data :: "'f float_ops \<Rightarrow> config \<Rightarrow> string \<Rightarrow> 'f daq \<Rightarrow> 'f daq" where
  "dump_data ops cfg volt s =
     (let content = dump_text ops (list_events s)
      in do_action [WriteFile (dump_path cfg volt) content]
           (s\<lparr>files := (files s)(dump_path cfg volt \<mapsto> content)\<rparr>))"

definition parse_timebase :: "'f float_ops \<Rightarrow> string \<Rightarrow> py_error + 'f" where
  "parse_timebase ops raw_dt =
     (case py_getitem (py_split CHR '':'' raw_dt) 2 of
        Inl e \<Rightarrow> Inl e
      | Inr field \<Rightarrow>
          (case py_getitem (py_split CHR '' '' field) 1 of
             Inl e \<Rightarrow> Inl e
           | Inr word \<Rightarrow>
               (case pyfloat ops word of
                  None \<Rightarrow> Inl ValueError
                | Some d \<Rightarrow> Inr d)))"

definition timebase_query :: string where
  "timebase_query = ''C2:INSPECT? HORIZ_INTERVAL''"

definition get_timebase :: "env \<Rightarrow> 'f float_ops \<Rightarrow> 'f daq \<Rightarrow> py_error + 'f daq" where
  "get_timebase env ops s =
     (let reply = scope_reply env (n_query s) timebase_query;
          s1 = do_action [Query timebase_query] (s\<lparr>n_query := Suc (n_query s)\<rparr>)
      in case reply of
           None \<Rightarrow> Inl AttributeError
         | Some raw_dt \<Rightarrow>
             (case parse_timebase ops raw_dt of
                Inl e \<Rightarrow> Inl e
              | Inr d \<Rightarrow> Inr (s1\<lparr>dt := d\<rparr>)))"

text \<open>The query of one event: one sub-command per active channel, numbered by the
  position in the mask, from 0.\<close>

definition command_payload :: "bool list \<Rightarrow> string" where
  "command_payload chans =
     foldl (\<lambda>payload (channel_number, active_channel).
              if active_channel
              then payload @ ''C'' @ str_nat channel_number @ '':INSPECT? SIMPLE;''
              else payload)
       [] (enumerate 0 chans)"

text \<open>The loop of \<^verbatim>\<open>get_events\<close>, by the number of iterations left. Each iteration
  looks at the stop queue first and returns when it holds an item.\<close>

fun get_events_loop ::
  "env \<Rightarrow> 'f float_ops \<Rightarrow> config \<Rightarrow> nat \<Rightarrow> 'f daq \<Rightarrow> py_error + 'f daq" where
  "get_events_loop env ops cfg 0 s = Inr s"
| "get_events_loop env ops cfg (Suc n) s =
     (let s1 = s\<lparr>n_stop := Suc (n_stop s)\<rparr>
      in if stop_posted env (n_stop s) then Inr s1
         else
           (let payload = command_payload (channels cfg);
                reply = scope_reply env (n_query s1) payload;
                s2 = do_action [Query payload] (s1\<lparr>n_query := Suc (n_query s1)\<rparr>)
            in case convert_to_vector ops (dt s2) reply of
                 Inl e \<Rightarrow> Inl e
               | Inr event \<Rightarrow>
                   get_events_loop env ops cfg n
                     (s2\<lparr>list_events := list_events s2 @ [event]\<rparr>)))"

definition get_events :: "env \<Rightarrow> 'f float_ops \<Rightarrow> config \<Rightarrow> 'f daq \<Rightarrow> py_error + 'f daq" where
  "get_events env ops cfg s = get_events_loop env ops cfg (num_events cfg) s"

subsection \<open>\<^verbatim>\<open>__init__\<close>: the sweep\<close>

text \<open>\<^verbatim>\<open>while sub in self.caen.status_check(ch): pass\<close>, from the \<open>i\<close>-th status reply
  on. The result is the number of replies read when the loop ends, and \<open>None\<close> when
  it never ends.\<close>

partial_function (option) wait_ramp :: "string \<Rightarrow> (nat \<Rightarrow> string) \<Rightarrow> nat \<Rightarrow> nat option" where
  "wait_ramp sub status i =
     (if py_in sub (status i) then wait_ramp sub status (Suc i) else Some (Suc i))"

declare wait_ramp.simps [code]

definition ramp_wait :: "string \<Rightarrow> env \<Rightarrow> config \<Rightarrow> 'f daq \<Rightarrow> 'f daq option" where
  "ramp_wait sub env cfg s =
     (case wait_ramp sub (caen_status env) (n_status s) of
        None \<Rightarrow> None
      | Some m \<Rightarrow>
          Some (do_action (replicate (m - n_status s) (StatusCheck (caen_channel cfg)))
                  (s\<lparr>n_status := m\<rparr>)))"

text \<open>Lines 68 to 70: the timebase, the events, the dump.\<close>

definition acquire ::
  "env \<Rightarrow> 'f float_ops \<Rightarrow> config \<Rightarrow> string \<Rightarrow> 'f daq \<Rightarrow> py_error + 'f daq" where
  "acquire env ops cfg volt s =
     (case get_timebase env ops s of
        Inl e \<Rightarrow> Inl e
      | Inr s1 \<Rightarrow>
          (case get_events env ops cfg s1 of
             Inl e \<Rightarrow> Inl e
           | Inr s2 \<Rightarrow> Inr (dump_data ops cfg volt s2)))"

text \<open>Lines 63 to 70, the body of the sweep loop after the look at the stop queue.\<close>

definition sweep_step ::
  "env \<Rightarrow> 'f float_ops \<Rightarrow> config \<Rightarrow> string \<Rightarrow> 'f daq \<Rightarrow> (py_error + 'f daq) option" where
  "sweep_step env ops cfg volt s =
     (case ramp_wait ''RAMP UP'' env cfg
             (do_action [SetOutput (caen_channel cfg) volt, Sleep 5] s) of
        None \<Rightarrow> None
      | Some s1 \<Rightarrow> Some (acquire env ops cfg volt s1))"

text \<open>Lines 60 to 70: the loop over the voltages; \<^verbatim>\<open>break\<close> when the queue holds an
  item.\<close>

fun sweep ::
  "env \<Rightarrow> 'f float_ops \<Rightarrow> config \<Rightarrow> string list \<Rightarrow> 'f daq \<Rightarrow> (py_error + 'f daq) option" where
  "sweep env ops cfg [] s = Some (Inr s)"
| "sweep env ops cfg (volt # volts) s =
     (let s1 = s\<lparr>n_stop := Suc (n_stop s)\<rparr>
      in if stop_posted env (n_stop s) then Some (Inr s1)
         else
           (case sweep_step env ops cfg volt s1 of
              None \<Rightarrow> None
            | Some (Inl e) \<Rightarrow> Some (Inl e)
            | Some (Inr s2) \<Rightarrow> sweep env ops cfg volts s2))"

text \<open>Lines 71 to 76: the output back to \<^verbatim>\<open>"0"\<close>, the wait, the two handles closed.\<close>

definition shutdown :: "env \<Rightarrow> config \<Rightarrow> 'f daq \<Rightarrow> 'f daq option" where
  "shutdown env cfg s =
     (case ramp_wait ''RAMP DOWN'' env cfg
             (do_action [SetOutput (caen_channel cfg) ''0''] s) of
        None \<Rightarrow> None
      | Some s1 \<Rightarrow> Some (do_action [CloseScope, CloseCaen] s1))"

text \<open>Lines 47 to 58: the two clients, the attributes, the output enabled unless the
  status says \<^verbatim>\<open>ON\<close>.\<close>

definition enable :: "env \<Rightarrow> 'f float_ops \<Rightarrow> config \<Rightarrow> 'f daq \<Rightarrow> 'f daq" where
  "enable env ops cfg s0 =
     (let s1 = do_action [OpenCaen (caen_ip cfg), OpenScope (scope_ip cfg)]
                 (s0\<lparr>dt := fzero ops\<rparr>);
          status = caen_status env (n_status s1);
          s2 = do_action [StatusCheck (caen_channel cfg)] (s1\<lparr>n_status := Suc (n_status s1)\<rparr>)
      in if \<not> py_in ''ON'' status
         then do_action [EnableOutput (caen_channel cfg) True] s2
         else s2)"

definition DaqRunner_init ::
  "env \<Rightarrow> 'f float_ops \<Rightarrow> config \<Rightarrow> 'f daq \<Rightarrow> (py_error + 'f daq) option" where
  "DaqRunner_init env ops cfg s0 =
     (case sweep env ops cfg (volt_list cfg) (enable env ops cfg s0) of
        None \<Rightarrow> None
      | Some (Inl e) \<Rightarrow> Some (Inl e)
      | Some (Inr s) \<Rightarrow>
          (case shutdown env cfg s of
             None \<Rightarrow> None
           | Some s' \<Rightarrow> Some (Inr s')))"

subsection \<open>An instance of the number operations\<close>

text \<open>Natural numbers as the numeric values, to run the definitions on: \<open>nat_float s\<close>
  reads an unsigned decimal integer literal, as \<^verbatim>\<open>float\<close> does on such a string, and
  \<open>nat_str\<close> prints it the way Python prints an integral float below \<open>10^16\<close>.\<close>

definition nat_float :: "string \<Rightarrow> nat option" where
  "nat_float s =
     (let w = py_strip s
      in if w \<noteq> [] \<and> list_all is_digit w
         then Some (foldl (\<lambda>acc c. 10 * acc + digit_val c) 0 w)
         else None)"

definition nat_str :: "nat \<Rightarrow> string" where
  "nat_str x = str_nat x @ ''.0''"

definition nat_ops :: "nat float_ops" where
  "nat_ops = \<lparr>pyfloat = nat_float, fmul = (\<lambda>x i. x * i), fstr = nat_str, fzero = 0\<rparr>"

text \<open>Real numbers as the numeric values, with Python's \<^verbatim>\<open>str\<close> tabulated on the four
  numbers \<open>0.0\<close>, \<open>1.5\<close>, \<open>1e-09\<close> and \<open>1.6\<close>.\<close>

definition example_str :: "real \<Rightarrow> string" where
  "example_str x =
     (if x = 0 then ''0.0'' else if x = 15 / 10 then ''1.5''
      else if x = 1 / 10 ^ 9 then ''1e-09'' else if x = 16 / 10 then ''1.6'' else ''nan'')"

definition example_ops :: "real float_ops" where
  "example_ops = \<lparr>pyfloat = (\<lambda>s. None), fmul = (\<lambda>x i. x * real i), fstr = example_str, fzero = 0\<rparr>"

text \<open>A configuration, a world and a start state to run the sweep on. The supply
  reports a ramp at its second and at its fifth status reply; the scope answers the
  timebase query with the field \<open>2\<close> and every other query with two samples on channel 1;
  the stop queue is a parameter.\<close>

definition example_cfg :: config where
  "example_cfg =
     \<lparr>scope_ip = ''10.0.0.1'', num_events = 2, channels = [True, False, False, False],
      output_filename = ''out'', caen_ip = ''10.0.0.2'', volt_list = [''100'', ''200''],
      caen_channel = ''3''\<rparr>"

definition example_env :: "(nat \<Rightarrow> bool) \<Rightarrow> env" where
  "example_env stop =
     \<lparr>caen_status = (\<lambda>i. if i = 1 then ''ON RAMP UP''
                          else if i = 4 then ''ON RAMP DOWN'' else ''ON''),
      scope_reply = (\<lambda>i q. if q = timebase_query then Some ''a:b: 2''
                            else Some (''C1:A '' @ str_nat i @ '' 7'')),
      stop_posted = stop\<rparr>"

definition daq_start :: "nat daq" where
  "daq_start = \<lparr>list_events = [], dt = 0, files = Map.empty, trace = [],
                n_status = 0, n_query = 0, n_stop = 0\<rparr>"

section \<open>Properties of the parser\<close>

subsection \<open>The entries of a reply\<close>

lemma py_split_nonempty: "py_split sep s \<noteq> []"
  by (induction s) (auto split: list.splits)

lemma entries_of_Nil: "entries_of [] = [[]]"
  by (simp add: entries_of_def)

lemma entries_of_nonempty: "entries_of s \<noteq> []"
  using py_split_nonempty[of "CHR 0x0A" s] py_split_nonempty[of "CHR '' ''"]
  by (cases "py_split CHR 0x0A s") (auto simp: entries_of_def)

lemma entries_of_Cons:
  "entries_of (c # cs) =
     (if c = CHR '' '' \<or> c = CHR 0x0A then [] # entries_of cs
      else (c # hd (entries_of cs)) # tl (entries_of cs))"
proof (cases "py_split CHR 0x0A cs")
  case Nil
  then show ?thesis using py_split_nonempty by blast
next
  case (Cons w ws)
  then show ?thesis
    using py_split_nonempty[of "CHR '' ''" w]
    by (cases "py_split CHR '' '' w") (auto simp: entries_of_def)
qed

lemma entries_of_space: "entries_of (a @ CHR '' '' # b) = entries_of a @ entries_of b"
proof (induction a)
  case Nil
  show ?case by (simp add: entries_of_Cons entries_of_Nil)
next
  case (Cons c a)
  then show ?case using entries_of_nonempty[of a]
    by (cases "entries_of a") (auto simp: entries_of_Cons)
qed

lemma entries_of_token:
  "CHR '' '' \<notin> set t \<Longrightarrow> CHR 0x0A \<notin> set t \<Longrightarrow> entries_of t = [t]"
  by (induction t) (auto simp: entries_of_Cons entries_of_Nil)

lemma no_colon_entries:
  "CHR '':'' \<notin> set raw \<Longrightarrow> \<forall>t \<in> set (entries_of raw). CHR '':'' \<notin> set t"
proof (induction raw)
  case Nil
  show ?case by (simp add: entries_of_Nil)
next
  case (Cons c cs)
  then have ih: "\<forall>t \<in> set (entries_of cs). CHR '':'' \<notin> set t" by simp
  from Cons.prems have c: "c \<noteq> CHR '':''" by auto
  show ?case using ih c entries_of_nonempty[of cs]
    by (cases "entries_of cs") (auto simp: entries_of_Cons)
qed

subsection \<open>The loops of the parser\<close>

lemma cv_line_append:
  "cv_line ops d (xs @ ys) st =
     (case cv_line ops d xs st of Inl e \<Rightarrow> Inl e | Inr st' \<Rightarrow> cv_line ops d ys st')"
  by (induction xs arbitrary: st) (auto split: sum.splits)

lemma cv_lines_entries:
  "cv_lines ops d lines st = cv_line ops d (concat (map (py_split CHR '' '') lines)) st"
  by (induction lines arbitrary: st) (auto simp: cv_line_append split: sum.splits)

lemma convert_to_vector_entries:
  "convert_to_vector ops d (Some raw) =
     (case cv_line ops d (entries_of raw) cv_init of
        Inl e \<Rightarrow> Inl e
      | Inr st \<Rightarrow> py_setitem (list_channel_wfms st) (cur_channel st) (Some (waveform st)))"
  by (simp add: convert_to_vector_def cv_lines_entries entries_of_def)

lemma samples_from_Nil: "samples_from ops d k [] = []"
  by (simp add: samples_from_def)

lemma samples_from_Cons:
  "samples_from ops d k (v # vs) = (fmul ops d k, v) # samples_from ops d (Suc k) vs"
proof -
  have "[0..<length (v # vs)] = 0 # map Suc [0..<length vs]"
    by (simp add: upt_conv_Cons map_Suc_upt del: upt_Suc)
  then show ?thesis by (simp add: samples_from_def comp_def)
qed

lemma samples_of_from: "samples_of ops d vs = samples_from ops d 0 vs"
  by (simp add: samples_of_def samples_from_def)

lemma numeric_values_Nil: "numeric_values ops [] = []"
  by (simp add: numeric_values_def List.map_filter_simps)

lemma numeric_values_Cons:
  "numeric_values ops (t # ts) =
     (case pyfloat ops (py_strip t) of None \<Rightarrow> numeric_values ops ts
      | Some v \<Rightarrow> v # numeric_values ops ts)"
  by (simp add: numeric_values_def List.map_filter_simps split: option.splits)

lemma numeric_values_all:
  "map (\<lambda>t. pyfloat ops (py_strip t)) ts = map Some vs \<Longrightarrow> numeric_values ops ts = vs"
proof (induction ts arbitrary: vs)
  case Nil
  then show ?case by (simp add: numeric_values_Nil)
next
  case (Cons t ts)
  then show ?case by (cases vs) (auto simp: numeric_values_Cons)
qed

lemma cv_line_data:
  "\<forall>t \<in> set ts. CHR '':'' \<notin> set t \<Longrightarrow>
   cv_line ops d ts st =
     Inr (st\<lparr>waveform := waveform st @ samples_from ops d (time_idx st) (numeric_values ops ts),
            time_idx := time_idx st + length (numeric_values ops ts)\<rparr>)"
proof (induction ts arbitrary: st)
  case Nil
  show ?case by (simp add: numeric_values_Nil samples_from_Nil)
next
  case (Cons t ts)
  then show ?case
    by (cases "pyfloat ops (py_strip t)")
       (simp_all add: cv_entry_def numeric_values_Cons samples_from_Cons)
qed

lemma cv_entry_skip:
  "CHR '':'' \<notin> set tok \<Longrightarrow> pyfloat ops (py_strip tok) = None \<Longrightarrow> cv_entry ops d tok st = Inr st"
  by (simp add: cv_entry_def)

lemma cv_entry_marker_closed:
  "CHR '':'' \<in> set m \<Longrightarrow> py_int (sub_non_digits m) = Inr n \<Longrightarrow> cur_channel st < 0 \<Longrightarrow>
   cv_entry ops d m st = Inr (st\<lparr>cur_channel := n - 1\<rparr>)"
  by (simp add: cv_entry_def cv_close_def)

lemma cv_entry_marker_open:
  "CHR '':'' \<in> set m \<Longrightarrow> py_int (sub_non_digits m) = Inr n \<Longrightarrow>
   0 \<le> cur_channel st \<Longrightarrow> cur_channel st < int (length (list_channel_wfms st)) \<Longrightarrow>
   cv_entry ops d m st =
     Inr (st\<lparr>list_channel_wfms := (list_channel_wfms st)[nat (cur_channel st) := Some (waveform st)],
            waveform := [], time_idx := 0, cur_channel := n - 1\<rparr>)"
  by (simp add: cv_entry_def cv_close_def py_setitem_def py_index_def)

lemma replicate4: "replicate 4 x = [x, x, x, x]"
  by (simp add: numeral_eq_Suc)

lemma cv_two_markers:
  assumes toks: "entries_of raw = ma # xs @ mb # ys"
    and ma: "CHR '':'' \<in> set ma" "py_int (sub_non_digits ma) = Inr ca"
    and mb: "CHR '':'' \<in> set mb" "py_int (sub_non_digits mb) = Inr cb"
    and ca: "1 \<le> ca" "ca \<le> 4" and cb: "1 \<le> cb" "cb \<le> 4"
    and xs: "\<forall>t \<in> set xs. CHR '':'' \<notin> set t"
    and ys: "\<forall>t \<in> set ys. CHR '':'' \<notin> set t"
  shows "convert_to_vector ops d (Some raw) =
           Inr ([None, None, None, None]
                 [nat (ca - 1) := Some (samples_of ops d (numeric_values ops xs)),
                  nat (cb - 1) := Some (samples_of ops d (numeric_values ops ys))])"
proof -
  define L :: "'a event" where "L = [None, None, None, None]"
  have lenL: "length L = 4" by (simp add: L_def)
  let ?A = "samples_of ops d (numeric_values ops xs)"
  let ?B = "samples_of ops d (numeric_values ops ys)"
  let ?s1 = "\<lparr>list_channel_wfms = L, cur_channel = ca - 1,
               time_idx = 0, waveform = []\<rparr> :: 'a cv_state"
  let ?s2 = "\<lparr>list_channel_wfms = L, cur_channel = ca - 1,
               time_idx = length (numeric_values ops xs), waveform = ?A\<rparr> :: 'a cv_state"
  let ?s3 = "\<lparr>list_channel_wfms = L[nat (ca - 1) := Some ?A],
               cur_channel = cb - 1, time_idx = 0, waveform = []\<rparr> :: 'a cv_state"
  let ?s4 = "\<lparr>list_channel_wfms = L[nat (ca - 1) := Some ?A],
               cur_channel = cb - 1, time_idx = length (numeric_values ops ys),
               waveform = ?B\<rparr> :: 'a cv_state"
  have e1: "cv_entry ops d ma cv_init = Inr ?s1"
    using cv_entry_marker_closed[OF ma, of cv_init ops d] by (simp add: replicate4 L_def)
  have l2: "cv_line ops d xs ?s1 = Inr ?s2"
    using cv_line_data[OF xs, of ops d ?s1] by (simp add: samples_of_from)
  have e3: "cv_entry ops d mb ?s2 = Inr ?s3"
    using cv_entry_marker_open[OF mb, of ?s2 ops d] ca by (simp add: lenL)
  have l4: "cv_line ops d ys ?s3 = Inr ?s4"
    using cv_line_data[OF ys, of ops d ?s3] by (simp add: samples_of_from)
  have "cv_line ops d (entries_of raw) cv_init = Inr ?s4"
    unfolding toks by (simp add: e1 cv_line_append l2 e3 l4)
  then have "convert_to_vector ops d (Some raw) = Inr (L[nat (ca - 1) := Some ?A, nat (cb - 1) := Some ?B])"
    using cb by (simp add: convert_to_vector_entries py_setitem_def py_index_def lenL)
  then show ?thesis by (simp only: L_def)
qed

lemma samples_of_length: "length (samples_of ops d vs) = length vs"
  by (simp add: samples_of_def)

lemma samples_of_nth: "i < length vs \<Longrightarrow> samples_of ops d vs ! i = (fmul ops d i, vs ! i)"
  by (simp add: samples_of_def)

text \<open>
  Claim C2. A reply whose entries are a marker of channel 1 and a marker of channel 3, in
  either order, each followed by \<open>N\<close> entries that \<^verbatim>\<open>float\<close> accepts, is parsed, for
  every timebase \<open>d\<close>, to a list of four slots: slots 0 and 2 hold the two waveforms, of
  length \<open>N\<close>, whose \<open>i\<close>-th sample is \<open>(d * i, i\<close>-th value\<open>)\<close>, and slots 1 and 3 are
  \<^verbatim>\<open>None\<close>. The index starts at 0 again for the second channel.
\<close>

theorem convert_to_vector_channels_1_3:
  assumes toks: "entries_of raw = ma # xs @ mb # ys"
    and ma: "CHR '':'' \<in> set ma" "py_int (sub_non_digits ma) = Inr ca"
    and mb: "CHR '':'' \<in> set mb" "py_int (sub_non_digits mb) = Inr cb"
    and chans: "(ca = 1 \<and> cb = 3) \<or> (ca = 3 \<and> cb = 1)"
    and xs: "\<forall>t \<in> set xs. CHR '':'' \<notin> set t" "map (\<lambda>t. pyfloat ops (py_strip t)) xs = map Some vs"
    and ys: "\<forall>t \<in> set ys. CHR '':'' \<notin> set t" "map (\<lambda>t. pyfloat ops (py_strip t)) ys = map Some ws"
    and len: "length xs = N" "length ys = N"
  shows "convert_to_vector ops d (Some raw) =
           Inr (if ca = 1
                then [Some (samples_of ops d vs), None, Some (samples_of ops d ws), None]
                else [Some (samples_of ops d ws), None, Some (samples_of ops d vs), None])
         \<and> length (samples_of ops d vs) = N \<and> length (samples_of ops d ws) = N
         \<and> (\<forall>i<N. samples_of ops d vs ! i = (fmul ops d i, vs ! i)
                 \<and> samples_of ops d ws ! i = (fmul ops d i, ws ! i))"
proof -
  have nv: "numeric_values ops xs = vs" "numeric_values ops ys = ws"
    using xs(2) ys(2) by (simp_all add: numeric_values_all)
  have lv: "length vs = N" "length ws = N"
    using len map_eq_imp_length_eq[OF xs(2)] map_eq_imp_length_eq[OF ys(2)] by simp_all
  have "1 \<le> ca" "ca \<le> 4" "1 \<le> cb" "cb \<le> 4" using chans by auto
  from cv_two_markers[OF toks ma mb this xs(1) ys(1), of ops d]
  have "convert_to_vector ops d (Some raw) =
          Inr ([None, None, None, None]
                [nat (ca - 1) := Some (samples_of ops d vs),
                 nat (cb - 1) := Some (samples_of ops d ws)])"
    by (simp add: nv)
  moreover have "[None, None, None, None]
                [nat (ca - 1) := Some (samples_of ops d vs),
                 nat (cb - 1) := Some (samples_of ops d ws)] =
         (if ca = 1
                then [Some (samples_of ops d vs), None, Some (samples_of ops d ws), None]
                else [Some (samples_of ops d ws), None, Some (samples_of ops d vs), None])"
    using chans by (auto simp: numeral_2_eq_2)
  ultimately show ?thesis
    using lv by (simp add: samples_of_length samples_of_nth)
qed

theorem convert_to_vector_channels_1_3_witness:
  "convert_to_vector nat_ops 2 (Some ''C1:INSP 5 7\<newline>C3:INSP 1 2'') =
     Inr [Some [(0, 5), (2, 7)], None, Some [(0, 1), (2, 2)], None]"
  using convert_to_vector_channels_1_3[of "''C1:INSP 5 7\<newline>C3:INSP 1 2''"
      "''C1:INSP''" "[''5'', ''7'']" "''C3:INSP''" "[''1'', ''2'']" 1 3 nat_ops "[5, 7]" "[1, 2]" 2 2]
  by (simp add: entries_of_def py_int_def sub_non_digits_def is_digit_def digit_val_def
      nat_ops_def nat_float_def py_strip_def is_space_def samples_of_def)

text \<open>
  Claim C6. An entry without a colon that \<^verbatim>\<open>float\<close> rejects (such as \<^verbatim>\<open>ERR\<close>), put
  between two parts of a reply as an entry of its own, changes nothing in the result:
  the reply with the entry is parsed to what the reply without it is parsed to, the
  same samples with the same times and voltages, and an exception only where the reply
  without it raises one.
\<close>

theorem convert_to_vector_skips_token:
  assumes "CHR '':'' \<notin> set tok" "CHR '' '' \<notin> set tok" "CHR 0x0A \<notin> set tok"
    and "pyfloat ops (py_strip tok) = None"
  shows "convert_to_vector ops d (Some (a @ '' '' @ tok @ '' '' @ b)) =
         convert_to_vector ops d (Some (a @ '' '' @ b))"
proof -
  have "entries_of (a @ '' '' @ tok @ '' '' @ b) = entries_of a @ [tok] @ entries_of b"
    using assms(2,3) by (simp add: entries_of_space entries_of_token)
  moreover have "entries_of (a @ '' '' @ b) = entries_of a @ entries_of b"
    by (simp add: entries_of_space)
  ultimately show ?thesis
    using cv_entry_skip[OF assms(1,4)]
    by (simp add: convert_to_vector_entries cv_line_append split: sum.splits)
qed

theorem convert_to_vector_skips_token_witness:
  "convert_to_vector nat_ops 2 (Some ''C1:INSP 5 ERR 7'') =
     convert_to_vector nat_ops 2 (Some ''C1:INSP 5 7'')
   \<and> convert_to_vector nat_ops 2 (Some ''C1:INSP 5 7'') =
       Inr [Some [(0, 5), (2, 7)], None, None, None]"
proof -
  have "convert_to_vector nat_ops 2 (Some (''C1:INSP 5'' @ '' '' @ ''ERR'' @ '' '' @ ''7'')) =
        convert_to_vector nat_ops 2 (Some (''C1:INSP 5'' @ '' '' @ ''7''))"
    by (rule convert_to_vector_skips_token)
       (simp_all add: nat_ops_def nat_float_def py_strip_def is_space_def is_digit_def)
  moreover have "convert_to_vector nat_ops 2 (Some ''C1:INSP 5 7'') =
       Inr [Some [(0, 5), (2, 7)], None, None, None]"
    by (simp add: convert_to_vector_def cv_entry_def cv_close_def py_int_def
        sub_non_digits_def is_digit_def digit_val_def nat_ops_def nat_float_def
        py_strip_def is_space_def py_setitem_def py_index_def replicate4)
  ultimately show ?thesis by simp
qed

text \<open>
  Claim C7. For the input \<^verbatim>\<open>None\<close> every slot of the result is \<^verbatim>\<open>None\<close>. For the empty
  string the result is not the list of four \<^verbatim>\<open>None\<close>: the store after the loops runs
  with \<^verbatim>\<open>cur_channel = -1\<close>, and the last slot holds a list.
\<close>

theorem convert_to_vector_absent_input:
  "convert_to_vector ops d None = Inr [None, None, None, None]
   \<and> convert_to_vector ops d (Some []) =
       Inr [None, None, None, Some (samples_of ops d (numeric_values ops [[]]))]
   \<and> convert_to_vector nat_ops d' (Some []) = Inr [None, None, None, Some []]"
  by (simp add: convert_to_vector_def replicate4 cv_entry_def py_setitem_def py_index_def
      numeric_values_def List.map_filter_simps samples_of_def py_strip_def
      nat_ops_def nat_float_def split: option.splits)

text \<open>
  Claim C8. A reply without a colon, so without a marker, raises nothing, and the result
  is one fixed assignment: slots 0 to 2 are \<^verbatim>\<open>None\<close> and the last slot holds every sample
  of the reply, indexed from 0.
\<close>

theorem convert_to_vector_no_marker:
  "CHR '':'' \<notin> set raw \<Longrightarrow>
   convert_to_vector ops d (Some raw) =
     Inr [None, None, None, Some (samples_of ops d (numeric_values ops (entries_of raw)))]"
  by (simp add: convert_to_vector_entries cv_line_data[OF no_colon_entries]
      py_setitem_def py_index_def replicate4 samples_of_from)

theorem convert_to_vector_no_marker_witness:
  "convert_to_vector nat_ops 2 (Some ''5 7 9'') =
     Inr [None, None, None, Some [(0, 5), (2, 7), (4, 9)]]"
  using convert_to_vector_no_marker[of "''5 7 9''" nat_ops 2]
  by (simp add: entries_of_def numeric_values_def List.map_filter_simps samples_of_def
      nat_ops_def nat_float_def py_strip_def is_space_def is_digit_def digit_val_def)

section \<open>Properties of the writer and of the query\<close>

lemma str_nat_digit: "n < 10 \<Longrightarrow> str_nat n = [digit_char n]"
  by (simp add: str_nat.simps)

lemma command_payload_4:
  "command_payload [b0, b1, b2, b3] =
     (if b0 then ''C0:INSPECT? SIMPLE;'' else []) @
     (if b1 then ''C1:INSPECT? SIMPLE;'' else []) @
     (if b2 then ''C2:INSPECT? SIMPLE;'' else []) @
     (if b3 then ''C3:INSPECT? SIMPLE;'' else [])"
  by (simp add: command_payload_def str_nat_digit digit_char_def)

text \<open>
  Claim C10. For every mask of four booleans the query of one event is the concatenation,
  over the positions \<open>i\<close> from 0 to 3 whose entry is true, in increasing order, of
  \<^verbatim>\<open>C{i}:INSPECT? SIMPLE;\<close>. The number is the position, from 0: the first channel is
  sent as \<^verbatim>\<open>C0\<close>, where the writer labels slot 0 \<^verbatim>\<open>CH1\<close>.
\<close>

theorem command_payload_zero_based:
  "command_payload [b0, b1, b2, b3] =
     concat (map (\<lambda>i. ''C'' @ str_nat i @ '':INSPECT? SIMPLE;'')
               (filter (\<lambda>i. [b0, b1, b2, b3] ! i) [0..<4]))
   \<and> command_payload [b0, b1, b2, b3] =
     (if b0 then ''C0:INSPECT? SIMPLE;'' else []) @
     (if b1 then ''C1:INSPECT? SIMPLE;'' else []) @
     (if b2 then ''C2:INSPECT? SIMPLE;'' else []) @
     (if b3 then ''C3:INSPECT? SIMPLE;'' else [])
   \<and> command_payload [True, False, False, False] = ''C0:INSPECT? SIMPLE;''
   \<and> dump_channel ops event_num 0 (Some [x]) =
       str_nat event_num @ '';CH1'' @ [CHR 0x0A] @ dump_entry ops x @ [CHR 0x0A, CHR 0x0A]"
proof -
  have "[0..<4] = [0, 1, 2, 3::nat]" by (simp add: upt_rec)
  then show ?thesis
    by (simp add: command_payload_4 str_nat_digit digit_char_def dump_channel_def truthy_def)
qed

text \<open>
  Claim C5. When \<^verbatim>\<open>str\<close> prints the four numbers as \<^verbatim>\<open>0.0\<close>, \<^verbatim>\<open>1.5\<close>, \<^verbatim>\<open>1e-09\<close> and
  \<^verbatim>\<open>1.6\<close>, the text written for one event whose slot 0 holds the two samples, the other
  slots being \<^verbatim>\<open>None\<close>, is exactly the header \<^verbatim>\<open>0;CH1\<close>, one line per sample and two empty
  lines. A slot that is \<^verbatim>\<open>None\<close> writes nothing. The dump puts the text of the whole log
  at the path \<^verbatim>\<open>{prefix}_{voltage}V\<close>, whatever the path held before.
\<close>

theorem dump_data_block:
  assumes "fstr ops t0 = ''0.0''" "fstr ops v0 = ''1.5''"
    and "fstr ops t1 = ''1e-09''" "fstr ops v1 = ''1.6''"
  shows "dump_text ops [[Some [(t0, v0), (t1, v1)], None, None, None]] =
           ''0;CH1\<newline>0.0,1.5\<newline>1e-09,1.6\<newline>\<newline>\<newline>''
         \<and> dump_channel ops event_num channel_num None = []
         \<and> files (dump_data ops cfg volt s) =
             (files s)(output_filename cfg @ ''_'' @ volt @ ''V'' \<mapsto> dump_text ops (list_events s))"
  using assms
  by (simp add: dump_text_def dump_from_def dump_event_def dump_channel_def dump_entry_def
      truthy_def str_nat_digit digit_char_def dump_data_def dump_path_def do_action_def Let_def)

theorem dump_data_block_witness:
  "dump_text example_ops [[Some [(0, 15 / 10), (1 / 10 ^ 9, 16 / 10)], None, None, None]] =
     ''0;CH1\<newline>0.0,1.5\<newline>1e-09,1.6\<newline>\<newline>\<newline>''"
  using dump_data_block[of example_ops 0 "15 / 10" "1 / 10 ^ 9" "16 / 10"]
  by (simp add: example_ops_def example_str_def)

section \<open>Properties of the controller\<close>

subsection \<open>The status polls\<close>

lemma wait_ramp_first:
  "i \<le> j \<Longrightarrow> (\<forall>k. i \<le> k \<and> k < j \<longrightarrow> py_in sub (st k)) \<Longrightarrow> \<not> py_in sub (st j) \<Longrightarrow>
   wait_ramp sub st i = Some (Suc j)"
proof (induction "j - i" arbitrary: i)
  case 0
  then have "i = j" by simp
  with 0 show ?case by (simp add: wait_ramp.simps)
next
  case (Suc n)
  then have lt: "i < j" by simp
  with Suc.prems have "py_in sub (st i)" by simp
  moreover have "wait_ramp sub st (Suc i) = Some (Suc j)"
    using Suc.hyps Suc.prems lt by (intro Suc.hyps(1)) auto
  ultimately show ?case by (subst wait_ramp.simps) simp
qed

lemma wait_ramp_Some:
  assumes "wait_ramp sub st i = Some m"
  shows "\<exists>j. m = Suc j \<and> i \<le> j \<and> \<not> py_in sub (st j) \<and>
             (\<forall>k. i \<le> k \<and> k < j \<longrightarrow> py_in sub (st k))"
proof (rule wait_ramp.raw_induct[where P = "\<lambda>sub st i m. \<exists>j. m = Suc j \<and> i \<le> j \<and>
    \<not> py_in sub (st j) \<and> (\<forall>k. i \<le> k \<and> k < j \<longrightarrow> py_in sub (st k))", OF _ assms])
  fix w :: "string \<Rightarrow> (nat \<Rightarrow> string) \<Rightarrow> nat \<Rightarrow> nat option" and sub st i m
  assume IH: "\<And>sub st i m. w sub st i = Some m \<Longrightarrow>
      \<exists>j. m = Suc j \<and> i \<le> j \<and> \<not> py_in sub (st j) \<and>
          (\<forall>k. i \<le> k \<and> k < j \<longrightarrow> py_in sub (st k))"
    and eq: "(if py_in sub (st i) then w sub st (Suc i) else Some (Suc i)) = Some m"
  show "\<exists>j. m = Suc j \<and> i \<le> j \<and> \<not> py_in sub (st j) \<and>
          (\<forall>k. i \<le> k \<and> k < j \<longrightarrow> py_in sub (st k))"
  proof (cases "py_in sub (st i)")
    case True
    with eq have "w sub st (Suc i) = Some m" by simp
    from IH[OF this] obtain j where j: "m = Suc j" "Suc i \<le> j" "\<not> py_in sub (st j)"
      "\<forall>k. Suc i \<le> k \<and> k < j \<longrightarrow> py_in sub (st k)" by blast
    have "\<forall>k. i \<le> k \<and> k < j \<longrightarrow> py_in sub (st k)"
    proof (intro allI impI)
      fix k assume k: "i \<le> k \<and> k < j"
      show "py_in sub (st k)"
      proof (cases "k = i")
        case True
        then show ?thesis using \<open>py_in sub (st i)\<close> by simp
      next
        case False
        with k have "Suc i \<le> k \<and> k < j" by simp
        with j(4) show ?thesis by blast
      qed
    qed
    with j show ?thesis by (intro exI[of _ j]) simp
  next
    case False
    with eq show ?thesis by (intro exI[of _ i]) auto
  qed
qed

lemma wait_ramp_returns_iff:
  "(wait_ramp sub st i \<noteq> None) = (\<exists>j\<ge>i. \<not> py_in sub (st j))"
proof
  assume "wait_ramp sub st i \<noteq> None"
  then obtain m where "wait_ramp sub st i = Some m" by auto
  from wait_ramp_Some[OF this] show "\<exists>j\<ge>i. \<not> py_in sub (st j)" by blast
next
  assume ex: "\<exists>j\<ge>i. \<not> py_in sub (st j)"
  define j where "j = (LEAST j. i \<le> j \<and> \<not> py_in sub (st j))"
  from ex have "\<exists>j. i \<le> j \<and> \<not> py_in sub (st j)" by blast
  then have a: "i \<le> j \<and> \<not> py_in sub (st j)" unfolding j_def by (rule LeastI_ex)
  have b: "\<forall>k. i \<le> k \<and> k < j \<longrightarrow> py_in sub (st k)"
    using not_less_Least[of _ "\<lambda>j. i \<le> j \<and> \<not> py_in sub (st j)"] unfolding j_def by blast
  from wait_ramp_first[of i j sub st] a b show "wait_ramp sub st i \<noteq> None" by simp
qed

subsection \<open>The waits of the sweep\<close>

lemma ramp_wait_first:
  assumes "n_status s \<le> j"
    and "\<forall>k. n_status s \<le> k \<and> k < j \<longrightarrow> py_in sub (caen_status env k)"
    and "\<not> py_in sub (caen_status env j)"
  shows "ramp_wait sub env cfg s =
           Some (do_action (replicate (Suc j - n_status s) (StatusCheck (caen_channel cfg)))
                   (s\<lparr>n_status := Suc j\<rparr>))"
  using wait_ramp_first[OF assms] by (simp add: ramp_wait_def)

lemma ramp_wait_None_iff:
  "(ramp_wait sub env cfg s = None) = (\<forall>j\<ge>n_status s. py_in sub (caen_status env j))"
  using wait_ramp_returns_iff[of sub "caen_status env" "n_status s"]
  by (auto simp: ramp_wait_def split: option.splits)

lemma sweep_step_hangs_iff:
  "(sweep_step env ops cfg volt s = None) =
      (\<forall>j\<ge>n_status s. py_in ''RAMP UP'' (caen_status env j))"
proof -
  let ?s1 = "do_action [SetOutput (caen_channel cfg) volt, Sleep 5] s"
  have n1: "n_status ?s1 = n_status s" by (simp add: do_action_def)
  have "(sweep_step env ops cfg volt s = None) = (ramp_wait ''RAMP UP'' env cfg ?s1 = None)"
    by (simp add: sweep_step_def split: option.splits)
  then show ?thesis
    by (simp only: ramp_wait_None_iff n1)
qed

lemma shutdown_hangs_iff:
  "(shutdown env cfg s = None) =
      (\<forall>j\<ge>n_status s. py_in ''RAMP DOWN'' (caen_status env j))"
proof -
  let ?s1 = "do_action [SetOutput (caen_channel cfg) ''0''] s"
  have n1: "n_status ?s1 = n_status s" by (simp add: do_action_def)
  have "(shutdown env cfg s = None) = (ramp_wait ''RAMP DOWN'' env cfg ?s1 = None)"
    by (simp add: shutdown_def split: option.splits)
  then show ?thesis
    by (simp only: ramp_wait_None_iff n1)
qed

lemma sweep_step_first:
  assumes "n_status s \<le> j"
    and "\<forall>k. n_status s \<le> k \<and> k < j \<longrightarrow> py_in ''RAMP UP'' (caen_status env k)"
    and "\<not> py_in ''RAMP UP'' (caen_status env j)"
  shows "sweep_step env ops cfg volt s =
         Some (acquire env ops cfg volt
                 (do_action ([SetOutput (caen_channel cfg) volt, Sleep 5]
                              @ replicate (Suc j - n_status s) (StatusCheck (caen_channel cfg)))
                    (s\<lparr>n_status := Suc j\<rparr>)))"
proof -
  let ?s1 = "do_action [SetOutput (caen_channel cfg) volt, Sleep 5] s"
  have n1: "n_status ?s1 = n_status s" by (simp add: do_action_def)
  have rw: "ramp_wait ''RAMP UP'' env cfg ?s1 =
          Some (do_action (replicate (Suc j - n_status ?s1) (StatusCheck (caen_channel cfg)))
                   (?s1\<lparr>n_status := Suc j\<rparr>))"
    using assms by (intro ramp_wait_first) (simp_all add: n1)
  have eq: "do_action (replicate (Suc j - n_status ?s1) (StatusCheck (caen_channel cfg)))
                   (?s1\<lparr>n_status := Suc j\<rparr>) =
            do_action ([SetOutput (caen_channel cfg) volt, Sleep 5]
                              @ replicate (Suc j - n_status s) (StatusCheck (caen_channel cfg)))
                    (s\<lparr>n_status := Suc j\<rparr>)"
    by (simp add: do_action_def)
  show ?thesis
    by (simp only: sweep_step_def rw option.case eq)
qed

text \<open>
  Claim C9. The wait after a set-voltage command, and the wait at shutdown, end exactly
  when some later status reply no longer holds \<^verbatim>\<open>RAMP UP\<close> (\<^verbatim>\<open>RAMP DOWN\<close> at shutdown):
  the step, or the shutdown, returns if and only if there is such a reply, and it never
  returns when every reply from then on reports the ramp. There is no other way out of
  the wait, neither a bound on the polls nor an error. When the first such reply is the
  \<open>j\<close>-th, the step goes on to the acquisition after exactly the polls up to that one.
\<close>

theorem ramp_wait_unbounded:
  "(sweep_step env ops cfg volt s \<noteq> None) =
      (\<exists>j\<ge>n_status s. \<not> py_in ''RAMP UP'' (caen_status env j))
   \<and> (shutdown env cfg s \<noteq> None) =
      (\<exists>j\<ge>n_status s. \<not> py_in ''RAMP DOWN'' (caen_status env j))
   \<and> (\<forall>j\<ge>n_status s. (\<forall>k. n_status s \<le> k \<and> k < j \<longrightarrow> py_in ''RAMP UP'' (caen_status env k))
         \<and> \<not> py_in ''RAMP UP'' (caen_status env j) \<longrightarrow>
       sweep_step env ops cfg volt s =
         Some (acquire env ops cfg volt
                 (do_action ([SetOutput (caen_channel cfg) volt, Sleep 5]
                              @ replicate (Suc j - n_status s) (StatusCheck (caen_channel cfg)))
                    (s\<lparr>n_status := Suc j\<rparr>))))"
proof (intro conjI allI impI)
  show "(sweep_step env ops cfg volt s \<noteq> None) =
      (\<exists>j\<ge>n_status s. \<not> py_in ''RAMP UP'' (caen_status env j))"
    by (simp add: sweep_step_hangs_iff)
  show "(shutdown env cfg s \<noteq> None) =
      (\<exists>j\<ge>n_status s. \<not> py_in ''RAMP DOWN'' (caen_status env j))"
    by (simp add: shutdown_hangs_iff)
  fix j
  assume "n_status s \<le> j"
    and "(\<forall>k. n_status s \<le> k \<and> k < j \<longrightarrow> py_in ''RAMP UP'' (caen_status env k))
         \<and> \<not> py_in ''RAMP UP'' (caen_status env j)"
  then show "sweep_step env ops cfg volt s =
         Some (acquire env ops cfg volt
                 (do_action ([SetOutput (caen_channel cfg) volt, Sleep 5]
                              @ replicate (Suc j - n_status s) (StatusCheck (caen_channel cfg)))
                    (s\<lparr>n_status := Suc j\<rparr>)))"
    by (intro sweep_step_first) simp_all
qed


theorem ramp_wait_unbounded_witness:
  "sweep_step ((example_env (\<lambda>i. False))\<lparr>caen_status := (\<lambda>i. ''ON RAMP UP'')\<rparr>)
      nat_ops example_cfg ''100'' daq_start = None
   \<and> sweep_step (example_env (\<lambda>i. False)) nat_ops example_cfg ''100'' daq_start \<noteq> None
   \<and> shutdown (example_env (\<lambda>i. False)) example_cfg daq_start \<noteq> None"
proof -
  have a: "\<not> (\<exists>j\<ge>n_status daq_start.
             \<not> py_in ''RAMP UP'' (caen_status ((example_env (\<lambda>i. False))\<lparr>caen_status := (\<lambda>i. ''ON RAMP UP'')\<rparr>) j))"
    by (simp add: daq_start_def)
  have b: "\<exists>j\<ge>n_status daq_start. \<not> py_in ''RAMP UP'' (caen_status (example_env (\<lambda>i. False)) j)"
    by (rule exI[of _ 0]) (simp add: example_env_def daq_start_def)
  have c: "\<exists>j\<ge>n_status daq_start. \<not> py_in ''RAMP DOWN'' (caen_status (example_env (\<lambda>i. False)) j)"
    by (rule exI[of _ 0]) (simp add: example_env_def daq_start_def)
  show ?thesis
    using a b c
      ramp_wait_unbounded[where env = "(example_env (\<lambda>i. False))\<lparr>caen_status := (\<lambda>i. ''ON RAMP UP'')\<rparr>"
        and ops = nat_ops and cfg = example_cfg and volt = "''100''" and s = daq_start]
      ramp_wait_unbounded[where env = "example_env (\<lambda>i. False)"
        and ops = nat_ops and cfg = example_cfg and volt = "''100''" and s = daq_start]
    by blast
qed

subsection \<open>The stop queue\<close>

lemma enable_fields:
  "list_events (enable env ops cfg s0) = list_events s0"
  "files (enable env ops cfg s0) = files s0"
  "n_stop (enable env ops cfg s0) = n_stop s0"
  "n_query (enable env ops cfg s0) = n_query s0"
  "n_status (enable env ops cfg s0) = Suc (n_status s0)"
  "dt (enable env ops cfg s0) = fzero ops"
  "trace (enable env ops cfg s0) =
     trace s0 @ [OpenCaen (caen_ip cfg), OpenScope (scope_ip cfg), StatusCheck (caen_channel cfg)]
     @ (if py_in ''ON'' (caen_status env (n_status s0)) then []
        else [EnableOutput (caen_channel cfg) True])"
  by (simp_all add: enable_def do_action_def Let_def)

lemma sweep_stopped:
  "stop_posted env (n_stop s) \<Longrightarrow>
   sweep env ops cfg volts s =
     Some (Inr (s\<lparr>n_stop := n_stop s + (if volts = [] then 0 else 1)\<rparr>))"
  by (cases volts) simp_all

text \<open>
  Claim C4. When the stop queue holds an item at the first look and the ramp-down
  clears at the \<open>j\<close>-th status reply, \<^verbatim>\<open>__init__\<close> returns with exactly this trace after
  the two clients are opened and the output is enabled: the output set to \<^verbatim>\<open>"0"\<close>, the
  status polls of the ramp-down wait, the scope closed, then the supply closed. No
  voltage of the list is set, no query is sent, no file is written, and the event log
  is unchanged.
\<close>

theorem stop_before_sweep:
  assumes stop: "stop_posted env (n_stop s0)"
    and j: "Suc (n_status s0) \<le> j"
    and ramp: "\<forall>k. Suc (n_status s0) \<le> k \<and> k < j \<longrightarrow> py_in ''RAMP DOWN'' (caen_status env k)"
    and clear: "\<not> py_in ''RAMP DOWN'' (caen_status env j)"
  shows "DaqRunner_init env ops cfg s0 =
           Some (Inr (s0\<lparr>dt := fzero ops,
                  trace := trace s0
                    @ [OpenCaen (caen_ip cfg), OpenScope (scope_ip cfg),
                       StatusCheck (caen_channel cfg)]
                    @ (if py_in ''ON'' (caen_status env (n_status s0)) then []
                       else [EnableOutput (caen_channel cfg) True])
                    @ [SetOutput (caen_channel cfg) ''0'']
                    @ replicate (j - n_status s0) (StatusCheck (caen_channel cfg))
                    @ [CloseScope, CloseCaen],
                  n_status := Suc j,
                  n_stop := n_stop s0 + (if volt_list cfg = [] then 0 else 1)\<rparr>))"
proof -
  let ?e = "enable env ops cfg s0"
  let ?s = "?e\<lparr>n_stop := n_stop s0 + (if volt_list cfg = [] then 0 else 1)\<rparr>"
  have sw: "sweep env ops cfg (volt_list cfg) ?e = Some (Inr ?s)"
    using sweep_stopped[of env ?e ops cfg "volt_list cfg"] stop by (simp add: enable_fields)
  let ?s1 = "do_action [SetOutput (caen_channel cfg) ''0''] ?s"
  have n1: "n_status ?s1 = Suc (n_status s0)" by (simp add: do_action_def enable_fields)
  have rw: "ramp_wait ''RAMP DOWN'' env cfg ?s1 =
          Some (do_action (replicate (Suc j - n_status ?s1) (StatusCheck (caen_channel cfg)))
                   (?s1\<lparr>n_status := Suc j\<rparr>))"
    using j ramp clear by (intro ramp_wait_first) (simp_all add: n1)
  have eq: "?e = s0\<lparr>dt := fzero ops, trace := trace ?e, n_status := Suc (n_status s0)\<rparr>"
    by (simp add: enable_def do_action_def Let_def)
  show ?thesis
    unfolding DaqRunner_init_def sw
    apply (simp add: shutdown_def rw n1)
    apply (subst eq)
    apply (simp add: do_action_def enable_fields)
    done
qed

theorem stop_before_sweep_witness:
  "DaqRunner_init (example_env (\<lambda>i. True)) nat_ops example_cfg daq_start =
     Some (Inr (daq_start\<lparr>trace := [OpenCaen ''10.0.0.2'', OpenScope ''10.0.0.1'',
                                     StatusCheck ''3'', SetOutput ''3'' ''0'', StatusCheck ''3'',
                                     CloseScope, CloseCaen],
                           n_status := 2, n_stop := 1\<rparr>))"
  using stop_before_sweep[where env = "example_env (\<lambda>i. True)" and ?s0.0 = daq_start and j = 1
      and ops = nat_ops and cfg = example_cfg]
  by (simp add: example_env_def daq_start_def example_cfg_def nat_ops_def)

lemma get_events_loop_stopped:
  assumes "k < n"
    and "stop_posted env (n_stop s + k)"
    and "\<forall>i<k. \<not> stop_posted env (n_stop s + i)"
    and "length evs = k"
    and "\<forall>i<k. convert_to_vector ops (dt s)
                  (scope_reply env (n_query s + i) (command_payload (channels cfg))) = Inr (evs ! i)"
  shows "get_events_loop env ops cfg n s =
           Inr (s\<lparr>list_events := list_events s @ evs,
                  trace := trace s @ replicate k (Query (command_payload (channels cfg))),
                  n_query := n_query s + k,
                  n_stop := n_stop s + k + 1\<rparr>)"
  using assms
proof (induction k arbitrary: n s evs)
  case 0
  then obtain n' where n: "n = Suc n'" by (cases n) auto
  from 0 show ?case by (cases s) (simp add: n)
next
  case (Suc k)
  then obtain n' where n: "n = Suc n'" and kn: "k < n'" by (cases n) auto
  from Suc.prems(4) obtain e evs' where evs: "evs = e # evs'" and len: "length evs' = k"
    by (cases evs) auto
  let ?p = "command_payload (channels cfg)"
  let ?s2 = "s\<lparr>list_events := list_events s @ [e], trace := trace s @ [Query ?p],
               n_query := Suc (n_query s), n_stop := Suc (n_stop s)\<rparr>"
  from Suc.prems(3) have ns: "\<not> stop_posted env (n_stop s)" by (metis add.right_neutral zero_less_Suc)
  from Suc.prems(5) have c0: "convert_to_vector ops (dt s) (scope_reply env (n_query s) ?p) = Inr e"
    using evs by (metis add.right_neutral nth_Cons_0 zero_less_Suc)
  have step: "get_events_loop env ops cfg n s = get_events_loop env ops cfg n' ?s2"
    using ns c0 by (cases s) (simp add: n do_action_def Let_def)
  have a: "stop_posted env (n_stop ?s2 + k)" using Suc.prems(2) by simp
  have b: "\<forall>i<k. \<not> stop_posted env (n_stop ?s2 + i)"
  proof (intro allI impI)
    fix i assume "i < k"
    then have "Suc i < Suc k" by simp
    with Suc.prems(3) have "\<not> stop_posted env (n_stop s + Suc i)" by blast
    then show "\<not> stop_posted env (n_stop ?s2 + i)" by simp
  qed
  have c: "\<forall>i<k. convert_to_vector ops (dt ?s2)
                  (scope_reply env (n_query ?s2 + i) ?p) = Inr (evs' ! i)"
  proof (intro allI impI)
    fix i assume "i < k"
    then have "Suc i < Suc k" by simp
    with Suc.prems(5) have "convert_to_vector ops (dt s)
                  (scope_reply env (n_query s + Suc i) ?p) = Inr (evs ! Suc i)" by blast
    then show "convert_to_vector ops (dt ?s2)
                  (scope_reply env (n_query ?s2 + i) ?p) = Inr (evs' ! i)" by (simp add: evs)
  qed
  show ?case
    unfolding step Suc.IH[OF kn a b len c]
    by (cases s) (simp add: evs replicate_app_Cons_same)
qed

lemma get_timebase_ok:
  "scope_reply env (n_query s) timebase_query = Some raw_dt \<Longrightarrow>
   parse_timebase ops raw_dt = Inr d \<Longrightarrow>
   get_timebase env ops s =
     Inr (s\<lparr>dt := d, trace := trace s @ [Query timebase_query], n_query := Suc (n_query s)\<rparr>)"
  by (cases s) (simp add: get_timebase_def do_action_def Let_def)

text \<open>
  Claim C3. Let the stop queue be empty at the look of the sweep loop and at the first
  \<open>k\<close> looks of the capture loop, \<open>k\<close> less than \<^verbatim>\<open>num_events\<close>, and hold an item from
  then on; let the ramp-up clear at the \<open>j\<close>-th status reply, the timebase reply be
  parsed to \<open>d\<close> and the \<open>k\<close> waveform replies be parsed to the events \<open>evs\<close>. Then the
  sweep over \<open>volt # volts\<close> returns, the log has grown by exactly the \<open>k\<close> events and by
  nothing else, the dump of the step has been written, and nothing has been done for
  the voltages \<open>volts\<close>.
\<close>

theorem stop_mid_capture:
  assumes k: "k < num_events cfg"
    and stop: "\<forall>i. stop_posted env i = (n_stop s + 1 + k \<le> i)"
    and j: "n_status s \<le> j"
    and ramp: "\<forall>i. n_status s \<le> i \<and> i < j \<longrightarrow> py_in ''RAMP UP'' (caen_status env i)"
    and clear: "\<not> py_in ''RAMP UP'' (caen_status env j)"
    and tb: "scope_reply env (n_query s) timebase_query = Some raw_dt"
            "parse_timebase ops raw_dt = Inr d"
    and len: "length evs = k"
    and evs: "\<forall>i<k. convert_to_vector ops d
                (scope_reply env (n_query s + 1 + i) (command_payload (channels cfg))) =
              Inr (evs ! i)"
  shows "sweep env ops cfg (volt # volts) s =
           Some (Inr (s\<lparr>list_events := list_events s @ evs,
                  dt := d,
                  files := (files s)(dump_path cfg volt \<mapsto> dump_text ops (list_events s @ evs)),
                  trace := trace s
                    @ [SetOutput (caen_channel cfg) volt, Sleep 5]
                    @ replicate (Suc j - n_status s) (StatusCheck (caen_channel cfg))
                    @ [Query timebase_query]
                    @ replicate k (Query (command_payload (channels cfg)))
                    @ [WriteFile (dump_path cfg volt) (dump_text ops (list_events s @ evs))],
                  n_status := Suc j,
                  n_query := n_query s + 1 + k,
                  n_stop := n_stop s + k + 2 + (if volts = [] then 0 else 1)\<rparr>))"
proof -
  let ?ch = "caen_channel cfg"
  let ?p = "command_payload (channels cfg)"
  let ?t2 = "trace s @ [SetOutput ?ch volt, Sleep 5] @ replicate (Suc j - n_status s) (StatusCheck ?ch)"
  let ?le = "list_events s @ evs"
  let ?s1 = "s\<lparr>n_stop := Suc (n_stop s)\<rparr>"
  let ?s2 = "s\<lparr>trace := ?t2, n_status := Suc j, n_stop := Suc (n_stop s)\<rparr>"
  let ?s3 = "s\<lparr>dt := d, trace := ?t2 @ [Query timebase_query], n_status := Suc j,
               n_query := Suc (n_query s), n_stop := Suc (n_stop s)\<rparr>"
  let ?s4 = "s\<lparr>list_events := ?le, dt := d,
               trace := ?t2 @ [Query timebase_query] @ replicate k (Query ?p),
               n_status := Suc j, n_query := n_query s + 1 + k, n_stop := n_stop s + k + 2\<rparr>"
  let ?s5 = "s\<lparr>list_events := ?le, dt := d,
               files := (files s)(dump_path cfg volt \<mapsto> dump_text ops ?le),
               trace := ?t2 @ [Query timebase_query] @ replicate k (Query ?p)
                        @ [WriteFile (dump_path cfg volt) (dump_text ops ?le)],
               n_status := Suc j, n_query := n_query s + 1 + k, n_stop := n_stop s + k + 2\<rparr>"
  have ns: "\<not> stop_posted env (n_stop s)" using stop by simp
  have "sweep_step env ops cfg volt ?s1 =
          Some (acquire env ops cfg volt
                 (do_action ([SetOutput ?ch volt, Sleep 5]
                              @ replicate (Suc j - n_status ?s1) (StatusCheck ?ch))
                    (?s1\<lparr>n_status := Suc j\<rparr>)))"
    using j ramp clear by (intro sweep_step_first) simp_all
  moreover have "do_action ([SetOutput ?ch volt, Sleep 5]
                              @ replicate (Suc j - n_status ?s1) (StatusCheck ?ch))
                    (?s1\<lparr>n_status := Suc j\<rparr>) = ?s2"
    by (cases s) (simp add: do_action_def)
  ultimately have st: "sweep_step env ops cfg volt ?s1 = Some (acquire env ops cfg volt ?s2)"
    by (simp only:)
  have "get_timebase env ops ?s2 =
          Inr (?s2\<lparr>dt := d, trace := trace ?s2 @ [Query timebase_query],
                    n_query := Suc (n_query ?s2)\<rparr>)"
    using tb by (intro get_timebase_ok[where raw_dt = raw_dt]) simp_all
  moreover have "?s2\<lparr>dt := d, trace := trace ?s2 @ [Query timebase_query],
                    n_query := Suc (n_query ?s2)\<rparr> = ?s3"
    by (cases s) simp
  ultimately have gt: "get_timebase env ops ?s2 = Inr ?s3" by (simp only:)
  have "get_events_loop env ops cfg (num_events cfg) ?s3 =
           Inr (?s3\<lparr>list_events := list_events ?s3 @ evs,
                  trace := trace ?s3 @ replicate k (Query ?p),
                  n_query := n_query ?s3 + k,
                  n_stop := n_stop ?s3 + k + 1\<rparr>)"
    using k stop len evs by (intro get_events_loop_stopped) simp_all
  moreover have "?s3\<lparr>list_events := list_events ?s3 @ evs,
                  trace := trace ?s3 @ replicate k (Query ?p),
                  n_query := n_query ?s3 + k,
                  n_stop := n_stop ?s3 + k + 1\<rparr> = ?s4"
    by (cases s) simp
  ultimately have ge: "get_events env ops cfg ?s3 = Inr ?s4"
    by (simp only: get_events_def)
  have dd: "dump_data ops cfg volt ?s4 = ?s5"
    by (cases s) (simp add: dump_data_def do_action_def Let_def)
  have acq: "acquire env ops cfg volt ?s2 = Inr ?s5"
    by (simp only: acquire_def gt ge sum.case dd)
  have post: "stop_posted env (n_stop ?s5)"
    using stop by simp
  have "sweep env ops cfg (volt # volts) s =
          (case sweep_step env ops cfg volt ?s1 of
             None \<Rightarrow> None
           | Some (Inl e) \<Rightarrow> Some (Inl e)
           | Some (Inr s2) \<Rightarrow> sweep env ops cfg volts s2)"
    using ns by (simp add: Let_def)
  also have "\<dots> = sweep env ops cfg volts ?s5"
    by (simp only: st acq option.case sum.case)
  also have "\<dots> = Some (Inr (?s5\<lparr>n_stop := n_stop ?s5 + (if volts = [] then 0 else 1)\<rparr>))"
    by (rule sweep_stopped[OF post])
  also have "?s5\<lparr>n_stop := n_stop ?s5 + (if volts = [] then 0 else 1)\<rparr> =
      s\<lparr>list_events := list_events s @ evs,
                  dt := d,
                  files := (files s)(dump_path cfg volt \<mapsto> dump_text ops (list_events s @ evs)),
                  trace := trace s
                    @ [SetOutput (caen_channel cfg) volt, Sleep 5]
                    @ replicate (Suc j - n_status s) (StatusCheck (caen_channel cfg))
                    @ [Query timebase_query]
                    @ replicate k (Query (command_payload (channels cfg)))
                    @ [WriteFile (dump_path cfg volt) (dump_text ops (list_events s @ evs))],
                  n_status := Suc j,
                  n_query := n_query s + 1 + k,
                  n_stop := n_stop s + k + 2 + (if volts = [] then 0 else 1)\<rparr>"
    by (cases s) simp
  finally show ?thesis .
qed

theorem stop_mid_capture_witness:
  "sweep (example_env (\<lambda>i. 2 \<le> i)) nat_ops example_cfg [''100'', ''200''] daq_start =
     Some (Inr (daq_start\<lparr>list_events := [[Some [(0, 1), (2, 7)], None, None, None]],
        dt := 2,
        files := [''out_100V'' \<mapsto> ''0;CH1\<newline>0.0,1.0\<newline>2.0,7.0\<newline>\<newline>\<newline>''],
        trace := [SetOutput ''3'' ''100'', Sleep 5, StatusCheck ''3'',
                  Query ''C2:INSPECT? HORIZ_INTERVAL'', Query ''C0:INSPECT? SIMPLE;'',
                  WriteFile ''out_100V'' ''0;CH1\<newline>0.0,1.0\<newline>2.0,7.0\<newline>\<newline>\<newline>''],
        n_status := 1, n_query := 2, n_stop := 4\<rparr>))"
proof -
  let ?E = "example_env (\<lambda>i. 2 \<le> i)"
  let ?ev = "[Some [(0, 1), (2, 7)], None, None, None] :: nat event"
  have k: "1 < num_events example_cfg" by (simp add: example_cfg_def)
  have stop: "\<forall>i. stop_posted ?E i = (n_stop daq_start + 1 + 1 \<le> i)"
    by (simp add: example_env_def daq_start_def numeral_2_eq_2)
  have j: "n_status daq_start \<le> 0" by (simp add: daq_start_def)
  have ramp: "\<forall>i. n_status daq_start \<le> i \<and> i < 0 \<longrightarrow> py_in ''RAMP UP'' (caen_status ?E i)"
    by simp
  have clear: "\<not> py_in ''RAMP UP'' (caen_status ?E 0)" by (simp add: example_env_def)
  have tb: "scope_reply ?E (n_query daq_start) timebase_query = Some ''a:b: 2''"
    by (simp add: example_env_def)
  have ptb: "parse_timebase nat_ops ''a:b: 2'' = Inr 2"
    by (simp add: parse_timebase_def py_getitem_def py_index_def nat_ops_def nat_float_def
        py_strip_def is_space_def is_digit_def digit_val_def)
  have len: "length [?ev] = 1" by simp
  have evs: "\<forall>i<1. convert_to_vector nat_ops 2
                (scope_reply ?E (n_query daq_start + 1 + i) (command_payload (channels example_cfg))) =
              Inr ([?ev] ! i)"
    by (simp add: example_env_def daq_start_def example_cfg_def command_payload_def
        timebase_query_def str_nat_digit digit_char_def convert_to_vector_def cv_entry_def
        cv_close_def py_int_def sub_non_digits_def is_digit_def digit_val_def nat_ops_def
        nat_float_def py_strip_def is_space_def py_setitem_def py_index_def replicate4)
  from stop_mid_capture[OF k stop j ramp clear tb ptb len evs, of "''100''" "[''200'']"]
  show ?thesis
    by (simp add: daq_start_def example_cfg_def dump_path_def dump_text_def dump_from_def
        dump_event_def dump_channel_def dump_entry_def truthy_def nat_ops_def nat_str_def
        str_nat_digit digit_char_def command_payload_def timebase_query_def
        del: sweep.simps)
qed

subsection \<open>The event log\<close>














end
